theory Spec2Isabelle
  imports Main "HOL-Library.Word"
begin

section \<open>Chroma-key pixel loop of \<open>processImageTransparency\<close>\<close>

text \<open>
  \<open>imageData.data\<close> is a \<open>Uint8ClampedArray\<close>: a flat list of bytes, four per pixel
  (R, G, B, A). Reading an element gives a JavaScript number; reading past the end gives
  \<open>undefined\<close>, which turns every arithmetic result into \<open>NaN\<close> and every comparison
  into \<open>false\<close>. A JavaScript number that may be \<open>undefined\<close>/\<open>NaN\<close> is an
  \<open>int option\<close> here. Writing past the end of a typed array does nothing, which is what
  \<open>xs[i := v]\<close> does as well.
\<close>

type_synonym byte = "8 word"
type_synonym js_number = "int option"

definition dataAt :: "byte list \<Rightarrow> nat \<Rightarrow> js_number" where
  "dataAt data i = (if i < length data then Some (uint (data ! i)) else None)"

definition jsPlus :: "js_number \<Rightarrow> int \<Rightarrow> js_number" where
  "jsPlus x k = (case x of None \<Rightarrow> None | Some v \<Rightarrow> Some (v + k))"

definition jsGt :: "js_number \<Rightarrow> js_number \<Rightarrow> bool" where
  "jsGt x y = (case (x, y) of (Some a, Some b) \<Rightarrow> a > b | _ \<Rightarrow> False)"

text \<open>The two constants declared in front of the loop.\<close>

definition minGreen :: int where
  "minGreen = 40"

definition dominanceThreshold :: int where
  "dominanceThreshold = 10"

text \<open>
  \<open>const isGreen = g > r + dominanceThreshold && g > b + dominanceThreshold && g > minGreen\<close>.
  The two thresholds are arguments, so that the loop can be studied for any pair of
  values; the program runs it with the two constants above (\<open>chromaKey\<close>).
\<close>

definition isGreen :: "int \<Rightarrow> int \<Rightarrow> js_number \<Rightarrow> js_number \<Rightarrow> js_number \<Rightarrow> bool" where
  "isGreen minG domT r g b =
     (jsGt g (jsPlus r domT) \<and> jsGt g (jsPlus b domT) \<and> jsGt g (Some minG))"

text \<open>
  \<open>for (let i = 0; i < data.length; i += 4) { ... if (isGreen) data[i + 3] = 0; }\<close>
  with the loop counter \<open>i\<close> as an argument.
\<close>

function keyLoop :: "int \<Rightarrow> int \<Rightarrow> nat \<Rightarrow> byte list \<Rightarrow> byte list" where
  "keyLoop minG domT i data =
     (if i < length data then
        (let r = dataAt data i;
             g = dataAt data (i + 1);
             b = dataAt data (i + 2)
         in keyLoop minG domT (i + 4)
              (if isGreen minG domT r g b then data[i + 3 := 0] else data))
      else data)"
  by pat_completeness auto
termination
  by (relation "measure (\<lambda>(minG, domT, i, data). length data - i)") auto

declare keyLoop.simps [simp del]

definition chromaKey :: "byte list \<Rightarrow> byte list" where
  "chromaKey data = keyLoop minGreen dominanceThreshold 0 data"

text \<open>The classification of the pixel that starts at byte \<open>p\<close>, read from \<open>data\<close>.\<close>

definition keyAt :: "int \<Rightarrow> int \<Rightarrow> byte list \<Rightarrow> nat \<Rightarrow> bool" where
  "keyAt minG domT data p =
     isGreen minG domT (dataAt data p) (dataAt data (p + 1)) (dataAt data (p + 2))"


section \<open>\<open>processImageTransparency\<close>: decode, key out, resize, encode\<close>

text \<open>
  What the browser does is not part of the program: decoding the image behind a data URL,
  handing out a 2D context, scaling one canvas onto another and encoding a canvas as PNG.
  These are the fields of a \<open>browser\<close>, and the program is modelled for any browser.
  A \<open>canvas\<close> is its size and the RGBA bytes that \<open>getImageData\<close> returns for it and
  \<open>putImageData\<close> stores in it. \<open>loadImage\<close> is the image the \<open>onload\<close> handler sees
  (drawn and read back), or \<open>None\<close> when \<open>onerror\<close> fires instead.
\<close>

record canvas =
  width :: nat
  height :: nat
  pixels :: "byte list"

record browser =
  loadImage :: "string \<Rightarrow> canvas option"
  tempContext :: bool
  finalContext :: bool
  drawImageScaled :: "canvas \<Rightarrow> nat \<Rightarrow> nat \<Rightarrow> canvas"
  toDataURL :: "canvas \<Rightarrow> string"

text \<open>An \<open>Error\<close> object, as far as the program looks at it: its \<open>message\<close>.\<close>

datatype jsError = JsError (message: "string option")

text \<open>
  The inner function \<open>resize\<close>. \<open>targetWidth\<close> and \<open>targetHeight\<close> are optional
  numbers; \<open>targetWidth && targetHeight\<close> is false when either is \<open>undefined\<close> or \<open>0\<close>.
  When the second canvas has no context the first one is encoded
  (\<open>canvas.toDataURL()\<close>, PNG being the default type).
\<close>

definition truthy :: "nat option \<Rightarrow> bool" where
  "truthy x = (case x of None \<Rightarrow> False | Some n \<Rightarrow> 0 < n)"

definition resize :: "browser \<Rightarrow> nat \<Rightarrow> nat \<Rightarrow> nat option \<Rightarrow> nat option \<Rightarrow> canvas \<Rightarrow> string" where
  "resize env w h targetWidth targetHeight cv =
     (if truthy targetWidth \<and> truthy targetHeight
         \<and> (targetWidth \<noteq> Some w \<or> targetHeight \<noteq> Some h)
      then (case (targetWidth, targetHeight) of
              (Some tw, Some th) \<Rightarrow>
                 if finalContext env
                 then toDataURL env (drawImageScaled env cv tw th)
                 else toDataURL env cv
            | _ \<Rightarrow> toDataURL env cv)
      else toDataURL env cv)"

text \<open>The promise of \<open>processImageTransparency\<close>: \<open>Inr\<close> what it resolves to, \<open>Inl\<close> what it rejects with.\<close>

definition processImageTransparency ::
  "browser \<Rightarrow> string \<Rightarrow> nat option \<Rightarrow> nat option \<Rightarrow> jsError + string" where
  "processImageTransparency env base64Str targetWidth targetHeight =
     (case loadImage env base64Str of
        None \<Rightarrow> Inl (JsError (Some ''Failed to process mask transparency''))
      | Some img \<Rightarrow>
          if \<not> tempContext env then Inl (JsError (Some ''Canvas context not available''))
          else
            (let w = width img;
                 h = height img;
                 tempCanvas = img\<lparr>pixels := chromaKey (pixels img)\<rparr>
             in Inr (resize env w h targetWidth targetHeight tempCanvas)))"

section \<open>The component state\<close>

datatype AppStatus = IDLE | PROCESSING | SUCCESS | ERROR

record HistoryItem =
  idH :: string
  timestamp :: int
  original :: string
  generated :: string
  promptUsed :: string
  thumbnail :: string

record PresetPrompt =
  presetId :: string
  label :: string
  text_p :: string
  description :: string

definition PRESETS :: "PresetPrompt list" where
  "PRESETS =
     [\<lparr>presetId = ''window-punch'',
       label = ''Punched Windows'',
       text_p = ''Edit this image: Locate all window glass. Replace ONLY the view seen through the windows with solid pure green #00FF00. Do not change the window frames, curtains, or any interior items.'',
       description = ''Make window views transparent.''\<rparr>,
      \<lparr>presetId = ''remove-bg'',
       label = ''Punched Background'',
       text_p = ''Edit this image: Identify the main subject in the foreground. Replace the entire background behind them with solid pure green #00FF00. Keep the subject exactly as they are.'',
       description = ''Transparent background around subject.''\<rparr>]"

text \<open>The \<open>useState\<close> variables of \<open>App\<close>, with their initial values.\<close>

record AppState =
  status :: AppStatus
  sourceImage :: "string option"
  originalDims :: "(nat \<times> nat) option"
  mimeType :: string
  generatedImage :: "string option"
  prompt :: string
  usePro :: bool
  error :: "string option"
  analysis :: "string option"
  history :: "HistoryItem list"
  fullViewImage :: "string option"

definition initialState :: AppState where
  "initialState =
     \<lparr>status = IDLE, sourceImage = None, originalDims = None, mimeType = ''image/png'',
      generatedImage = None, prompt = text_p (PRESETS ! 0), usePro = False, error = None,
      analysis = None, history = [], fullViewImage = None\<rparr>"

section \<open>\<open>Date.now().toString()\<close>\<close>

definition digitChar :: "nat \<Rightarrow> char" where
  "digitChar d = ''0123456789'' ! d"

function showNat :: "nat \<Rightarrow> string" where
  "showNat n = (if n < 10 then [digitChar n] else showNat (n div 10) @ [digitChar (n mod 10)])"
  by pat_completeness auto
termination
  by (relation "measure (\<lambda>n. n)") auto

declare showNat.simps [simp del]

definition toString :: "int \<Rightarrow> string" where
  "toString i = (if i < 0 then CHR ''-'' # showNat (nat (- i)) else showNat (nat i))"

section \<open>The handlers\<close>

text \<open>
  The synchronous part of \<open>handleImageSelect\<close>: six state setters. The image whose
  \<open>onload\<close> will set \<open>originalDims\<close> and the scene analysis are started here and end
  later, as events of their own (\<open>SourceImgLoaded\<close>, \<open>AnalysisSettled\<close>).
\<close>

definition handleImageSelect :: "string \<Rightarrow> string \<Rightarrow> AppState \<Rightarrow> AppState" where
  "handleImageSelect base64 type st =
     st\<lparr>sourceImage := Some base64, mimeType := type, generatedImage := None,
        status := IDLE, error := None, analysis := None\<rparr>"

text \<open>\<open>!sourceImage\<close>: true for \<open>null\<close> and for the empty string.\<close>

definition absent :: "string option \<Rightarrow> bool" where
  "absent s = (case s of None \<Rightarrow> True | Some x \<Rightarrow> x = [])"

text \<open>
  \<open>handleGenerate\<close> is an async function. It closes over the state of the render in
  which it was created, so what it uses after its \<open>await\<close>s (\<open>sourceImage\<close>, \<open>prompt\<close>,
  \<open>originalDims\<close>) are the values at the time of the call: an \<open>editCall\<close>.
  \<open>handleGenerate_begin\<close> is the part before the first \<open>await\<close>; it returns no call
  when the function returns early.
\<close>

record editCall =
  callSource :: string
  callMime :: string
  callPrompt :: string
  callUsePro :: bool
  callDims :: "(nat \<times> nat) option"

definition handleGenerate_begin :: "AppState \<Rightarrow> AppState \<times> editCall option" where
  "handleGenerate_begin st =
     (case sourceImage st of
        None \<Rightarrow> (st, None)
      | Some src \<Rightarrow>
          if src = [] then (st, None)
          else (st\<lparr>status := PROCESSING, error := None, generatedImage := None\<rparr>,
                Some \<lparr>callSource = src, callMime = mimeType st, callPrompt = prompt st,
                      callUsePro = usePro st, callDims = originalDims st\<rparr>))"

text \<open>
  The \<open>try\<close> block: the answer of \<open>editImageWithGemini\<close> (a function of the service
  module, given here by its outcome) goes through \<open>processImageTransparency\<close> with
  \<open>originalDims?.w\<close> and \<open>originalDims?.h\<close>.
\<close>

definition generationResult :: "browser \<Rightarrow> editCall \<Rightarrow> jsError + string \<Rightarrow> jsError + string" where
  "generationResult env c outcome =
     (case outcome of
        Inl e \<Rightarrow> Inl e
      | Inr resultBase64 \<Rightarrow>
          processImageTransparency env resultBase64
            (map_option fst (callDims c)) (map_option snd (callDims c)))"

text \<open>The object literal of the new history entry; the two \<open>Date.now()\<close> readings are arguments.\<close>

definition newHistoryItem :: "editCall \<Rightarrow> string \<Rightarrow> int \<Rightarrow> int \<Rightarrow> HistoryItem" where
  "newHistoryItem c finalImage now1 now2 =
     \<lparr>idH = toString now1, timestamp = now2, original = callSource c,
      generated = finalImage, promptUsed = callPrompt c, thumbnail = finalImage\<rparr>"

text \<open>\<open>prev => [item, ...prev].slice(0, 10)\<close>\<close>

definition pushHistory :: "HistoryItem \<Rightarrow> HistoryItem list \<Rightarrow> HistoryItem list" where
  "pushHistory item prev = take 10 (item # prev)"

text \<open>\<open>e.message || "Failed to process image."\<close>\<close>

definition errorText :: "jsError \<Rightarrow> string" where
  "errorText e =
     (case message e of
        None \<Rightarrow> ''Failed to process image.''
      | Some m \<Rightarrow> if m = [] then ''Failed to process image.'' else m)"

text \<open>The rest of \<open>handleGenerate\<close>, run when the awaited promises settle.\<close>

definition handleGenerate_settle ::
  "browser \<Rightarrow> editCall \<Rightarrow> jsError + string \<Rightarrow> int \<Rightarrow> int \<Rightarrow> AppState \<Rightarrow> AppState" where
  "handleGenerate_settle env c outcome now1 now2 st =
     (case generationResult env c outcome of
        Inr finalImage \<Rightarrow>
          st\<lparr>generatedImage := Some finalImage,
             history := pushHistory (newHistoryItem c finalImage now1 now2) (history st),
             status := SUCCESS\<rparr>
      | Inl e \<Rightarrow> st\<lparr>error := Some (errorText e), status := ERROR\<rparr>)"

text \<open>The click handler of a history thumbnail.\<close>

definition historyClick :: "HistoryItem \<Rightarrow> AppState \<Rightarrow> AppState" where
  "historyClick item st =
     st\<lparr>sourceImage := Some (original item), generatedImage := Some (generated item),
        status := SUCCESS\<rparr>"

text \<open>The \<open>disabled\<close> attribute of the generate button.\<close>

definition generateDisabled :: "AppState \<Rightarrow> bool" where
  "generateDisabled st = (absent (sourceImage st) \<or> status st = PROCESSING)"

section \<open>The component as a transition system\<close>

text \<open>
  Between two events nothing runs. An event is a user action or the end of something
  asynchronous. The \<open>world\<close> is the component state and what is still in flight: the edit
  calls of \<open>handleGenerate\<close>, the images whose size \<open>handleImageSelect\<close> waits for, and
  the number of scene analyses not yet answered. An event that names something not in
  flight cannot happen and changes nothing. A click on the generate button reaches
  \<open>handleGenerate\<close> only when the button is not disabled (the \<open>Button\<close> component is
  taken to pass \<open>disabled\<close> on to the button element).
\<close>

record world =
  app :: AppState
  inflight :: "editCall list"
  loading :: "string list"
  analysing :: nat

datatype event =
    ImageSelect string string
  | SourceImgLoaded nat
  | AnalysisSettled "jsError + string"
  | PresetClick nat
  | SetUsePro bool
  | GenerateClick
  | GenerationSettled nat "jsError + string" int int
  | HistoryClick nat
  | FullViewGenerated
  | FullViewHistory nat
  | FullViewClose

definition initialWorld :: world where
  "initialWorld = \<lparr>app = initialState, inflight = [], loading = [], analysing = 0\<rparr>"

definition removeAt :: "nat \<Rightarrow> 'a list \<Rightarrow> 'a list" where
  "removeAt k xs = take k xs @ drop (Suc k) xs"

fun step :: "browser \<Rightarrow> event \<Rightarrow> world \<Rightarrow> world" where
  "step env (ImageSelect base64 type) w =
     w\<lparr>app := handleImageSelect base64 type (app w),
       loading := loading w @ [base64],
       analysing := Suc (analysing w)\<rparr>"
| "step env (SourceImgLoaded k) w =
     (if k < length (loading w) then
        (case loadImage env (loading w ! k) of
           None \<Rightarrow> w\<lparr>loading := removeAt k (loading w)\<rparr>
         | Some img \<Rightarrow>
             w\<lparr>app := (app w)\<lparr>originalDims := Some (width img, height img)\<rparr>,
               loading := removeAt k (loading w)\<rparr>)
      else w)"
| "step env (AnalysisSettled outcome) w =
     (if 0 < analysing w then
        (case outcome of
           Inr result \<Rightarrow> w\<lparr>app := (app w)\<lparr>analysis := Some result\<rparr>, analysing := analysing w - 1\<rparr>
         | Inl e \<Rightarrow> w\<lparr>analysing := analysing w - 1\<rparr>)
      else w)"
| "step env (PresetClick k) w =
     (if k < length PRESETS then w\<lparr>app := (app w)\<lparr>prompt := text_p (PRESETS ! k)\<rparr>\<rparr> else w)"
| "step env (SetUsePro b) w = w\<lparr>app := (app w)\<lparr>usePro := b\<rparr>\<rparr>"
| "step env GenerateClick w =
     (if generateDisabled (app w) then w
      else (case handleGenerate_begin (app w) of
              (st, None) \<Rightarrow> w\<lparr>app := st\<rparr>
            | (st, Some c) \<Rightarrow> w\<lparr>app := st, inflight := inflight w @ [c]\<rparr>))"
| "step env (GenerationSettled k outcome now1 now2) w =
     (if k < length (inflight w) then
        w\<lparr>app := handleGenerate_settle env (inflight w ! k) outcome now1 now2 (app w),
          inflight := removeAt k (inflight w)\<rparr>
      else w)"
| "step env (HistoryClick k) w =
     (if k < length (history (app w)) then w\<lparr>app := historyClick (history (app w) ! k) (app w)\<rparr>
      else w)"
| "step env FullViewGenerated w =
     (if status (app w) \<noteq> PROCESSING \<and> \<not> absent (generatedImage (app w))
      then w\<lparr>app := (app w)\<lparr>fullViewImage := generatedImage (app w)\<rparr>\<rparr> else w)"
| "step env (FullViewHistory k) w =
     (if k < length (history (app w))
      then w\<lparr>app := (app w)\<lparr>fullViewImage := Some (generated (history (app w) ! k))\<rparr>\<rparr> else w)"
| "step env FullViewClose w = w\<lparr>app := (app w)\<lparr>fullViewImage := None\<rparr>\<rparr>"

fun run :: "browser \<Rightarrow> event list \<Rightarrow> world \<Rightarrow> world" where
  "run env [] w = w"
| "run env (e # es) w = run env es (step env e w)"

text \<open>The history entries that a run creates, in the order of their creation.\<close>

fun createdBy :: "browser \<Rightarrow> event \<Rightarrow> world \<Rightarrow> HistoryItem list" where
  "createdBy env (GenerationSettled k outcome now1 now2) w =
     (if k < length (inflight w) then
        (case generationResult env (inflight w ! k) outcome of
           Inr finalImage \<Rightarrow> [newHistoryItem (inflight w ! k) finalImage now1 now2]
         | Inl e \<Rightarrow> [])
      else [])"
| "createdBy env e w = []"

fun createdItems :: "browser \<Rightarrow> event list \<Rightarrow> world \<Rightarrow> HistoryItem list" where
  "createdItems env [] w = []"
| "createdItems env (e # es) w = createdBy env e w @ createdItems env es (step env e w)"

section \<open>A browser and some runs, for evaluation\<close>

text \<open>
  A browser that decodes every data URL but \<open>''broken''\<close> to one green pixel and encodes
  a canvas by its size and bytes.
\<close>

definition onePixel :: canvas where
  "onePixel = \<lparr>width = 1, height = 1, pixels = [0, 255, 0, 255]\<rparr>"

definition demoBrowser :: browser where
  "demoBrowser =
     \<lparr>loadImage = (\<lambda>s. if s = ''broken'' then None else Some onePixel),
      tempContext = True,
      finalContext = True,
      drawImageScaled = (\<lambda>cv tw th. \<lparr>width = tw, height = th, pixels = replicate (4 * tw * th) 0\<rparr>),
      toDataURL = (\<lambda>cv. ''png '' @ showNat (width cv) @ '' '' @ showNat (height cv)
                          @ concat (map (\<lambda>b. '' '' @ showNat (unat b)) (pixels cv)))\<rparr>"


definition retryEvents :: "event list" where
  "retryEvents =
     [ImageSelect ''A'' ''image/png'', SourceImgLoaded 0, GenerateClick,
      GenerationSettled 0 (Inr ''edited'') 1000 1000]"

definition overlapEvents :: "event list" where
  "overlapEvents =
     [ImageSelect ''A'' ''image/png'', GenerateClick, ImageSelect ''B'' ''image/png'']"

definition collideEvents :: "event list" where
  "collideEvents =
     [ImageSelect ''A'' ''image/png'', GenerateClick,
      ImageSelect ''B'' ''image/png'', GenerateClick,
      GenerationSettled 0 (Inr ''edited'') 1000 1000,
      GenerationSettled 0 (Inr ''edited'') 1000 1000]"

definition elevenEvents :: "event list" where
  "elevenEvents =
     [ImageSelect ''A'' ''image/png'',
      GenerateClick, GenerationSettled 0 (Inr ''edited'') 1700000000001 1700000000001,
      GenerateClick, GenerationSettled 0 (Inr ''edited'') 1700000000002 1700000000002,
      GenerateClick, GenerationSettled 0 (Inr ''edited'') 1700000000003 1700000000003,
      GenerateClick, GenerationSettled 0 (Inr ''edited'') 1700000000004 1700000000004,
      GenerateClick, GenerationSettled 0 (Inr ''edited'') 1700000000005 1700000000005,
      GenerateClick, GenerationSettled 0 (Inr ''edited'') 1700000000006 1700000000006,
      GenerateClick, GenerationSettled 0 (Inr ''edited'') 1700000000007 1700000000007,
      GenerateClick, GenerationSettled 0 (Inr ''edited'') 1700000000008 1700000000008,
      GenerateClick, GenerationSettled 0 (Inr ''edited'') 1700000000009 1700000000009,
      GenerateClick, GenerationSettled 0 (Inr ''edited'') 1700000000010 1700000000010,
      GenerateClick, GenerationSettled 0 (Inr ''edited'') 1700000000011 1700000000011]"

definition twoClockEvents :: "event list" where
  "twoClockEvents =
     [ImageSelect ''A'' ''image/png'', GenerateClick,
      GenerationSettled 0 (Inr ''edited'') 1000 1000,
      GenerateClick,
      GenerationSettled 0 (Inr ''edited'') 1001 1001]"

section \<open>Properties of the pixel loop\<close>

lemma length_keyLoop [simp]: "length (keyLoop minG domT i data) = length data"
proof (induction minG domT i data rule: keyLoop.induct)
  case (1 minG domT i data)
  show ?case
  proof (cases "i < length data")
    case True
    then show ?thesis
      using "1.IH" [OF True refl refl refl]
      by (subst keyLoop.simps) (simp add: Let_def)
  next
    case False
    then show ?thesis by (subst keyLoop.simps) simp
  qed
qed

lemma keyAt_update:
  "q \<noteq> p \<Longrightarrow> q \<noteq> p + 1 \<Longrightarrow> q \<noteq> p + 2 \<Longrightarrow> keyAt minG domT (data[q := v]) p = keyAt minG domT data p"
  by (simp add: keyAt_def dataAt_def)

lemma keyLoop_step:
  "i < length data \<Longrightarrow>
   keyLoop minG domT i data =
     keyLoop minG domT (i + 4) (if keyAt minG domT data i then data[i + 3 := 0] else data)"
  by (subst keyLoop.simps) (simp add: Let_def keyAt_def)

lemma keyLoop_stop: "\<not> i < length data \<Longrightarrow> keyLoop minG domT i data = data"
  by (subst keyLoop.simps) simp

lemma mod4_shift: "i + 7 \<le> j \<Longrightarrow> (j - (i + 4)) mod 4 = (j - i) mod (4::nat)"
proof -
  assume a: "i + 7 \<le> j"
  then have "j - i = (j - (i + 4)) + 4" by simp
  then show ?thesis by (metis mod_add_self2)
qed

lemma mod4_near: "i + 3 \<le> j \<Longrightarrow> \<not> i + 7 \<le> j \<Longrightarrow> j \<noteq> i + 3 \<Longrightarrow> (j - i) mod 4 \<noteq> (3::nat)"
proof -
  assume a: "i + 3 \<le> j" "\<not> i + 7 \<le> j" "j \<noteq> i + 3"
  then have "j - i = 4 \<or> j - i = 5 \<or> j - i = 6" by arith
  then show ?thesis by auto
qed

lemma keyLoop_nth:
  "j < length data \<Longrightarrow>
   keyLoop minG domT i data ! j =
     (if i + 3 \<le> j \<and> (j - i) mod 4 = 3 \<and> keyAt minG domT data (j - 3) then 0 else data ! j)"
proof (induction minG domT i data rule: keyLoop.induct)
  case (1 minG domT i data)
  show ?case
  proof (cases "i < length data")
    case False
    with "1.prems" show ?thesis by (simp add: keyLoop_stop)
  next
    case True
    define d where "d = (if keyAt minG domT data i then data[i + 3 := 0] else data)"
    have d_alt: "d = (if isGreen minG domT (dataAt data i) (dataAt data (i + 1)) (dataAt data (i + 2))
                      then data[i + 3 := 0] else data)"
      by (simp add: d_def keyAt_def)
    have step: "keyLoop minG domT i data = keyLoop minG domT (i + 4) d"
      unfolding d_def by (rule keyLoop_step [OF True])
    have len: "j < length d" using "1.prems" by (simp add: d_def)
    have IH: "keyLoop minG domT (i + 4) d ! j =
        (if i + 4 + 3 \<le> j \<and> (j - (i + 4)) mod 4 = 3 \<and> keyAt minG domT d (j - 3) then 0 else d ! j)"
      using "1.IH" [OF True refl refl refl] len unfolding d_alt by blast
    show ?thesis
    proof (cases "i + 7 \<le> j")
      case far: True
      have k: "keyAt minG domT d (j - 3) = keyAt minG domT data (j - 3)"
        unfolding d_def using far by (simp add: keyAt_update)
      have m: "(j - (i + 4)) mod 4 = (j - i) mod 4"
        by (rule mod4_shift [OF far])
      have dj: "d ! j = data ! j" unfolding d_def using far by simp
      have c: "i + 4 + 3 \<le> j" "i + 3 \<le> j" using far by simp_all
      show ?thesis unfolding step IH k m dj using c by simp
    next
      case near: False
      then have n: "\<not> i + 4 + 3 \<le> j" by simp
      have a: "keyLoop minG domT i data ! j = d ! j" unfolding step IH using n by simp
      show ?thesis
      proof (cases "j = i + 3")
        case True
        then show ?thesis unfolding a d_def using "1.prems" by simp
      next
        case False
        have dj: "d ! j = data ! j" unfolding d_def using False by simp
        have "\<not> (i + 3 \<le> j \<and> (j - i) mod 4 = 3)"
          using mod4_near [OF _ near False] by blast
        then show ?thesis unfolding a dj by auto
      qed
    qed
  qed
qed

lemma keyLoop0_nth:
  "j < length data \<Longrightarrow>
   keyLoop minG domT 0 data ! j =
     (if j mod 4 = 3 \<and> keyAt minG domT data (j - 3) then 0 else data ! j)"
proof -
  assume j: "j < length data"
  have "j mod 4 = 3 \<Longrightarrow> 3 \<le> j"
    by (metis mod_less_eq_dividend)
  then show ?thesis
    using keyLoop_nth [OF j, of minG domT 0] by auto
qed

lemma dataAt_keyLoop0:
  "j mod 4 \<noteq> 3 \<Longrightarrow> dataAt (keyLoop minG domT 0 data) j = dataAt data j"
  by (simp add: dataAt_def keyLoop0_nth)

lemma keyAt_keyLoop0:
  assumes "p mod 4 = 0"
  shows "keyAt minG domT (keyLoop minG domT 0 data) p = keyAt minG domT data p"
proof -
  from assms have "p mod 4 \<noteq> 3" "(p + 1) mod 4 \<noteq> 3" "(p + 2) mod 4 \<noteq> 3"
    by presburger+
  then show ?thesis
    by (simp add: keyAt_def dataAt_keyLoop0)
qed

lemma keyLoop0_idem:
  "keyLoop minG domT 0 (keyLoop minG domT 0 data) = keyLoop minG domT 0 data"
proof (rule nth_equalityI)
  show "length (keyLoop minG domT 0 (keyLoop minG domT 0 data)) = length (keyLoop minG domT 0 data)"
    by simp
next
  fix j
  assume "j < length (keyLoop minG domT 0 (keyLoop minG domT 0 data))"
  then have j: "j < length data" by simp
  show "keyLoop minG domT 0 (keyLoop minG domT 0 data) ! j = keyLoop minG domT 0 data ! j"
  proof (cases "j mod 4 = 3")
    case True
    then have "(j - 3) mod 4 = 0" by presburger
    then have "keyAt minG domT (keyLoop minG domT 0 data) (j - 3) = keyAt minG domT data (j - 3)"
      by (rule keyAt_keyLoop0)
    then show ?thesis using j by (simp add: keyLoop0_nth)
  next
    case False
    then show ?thesis using j by (simp add: keyLoop0_nth)
  qed
qed

lemma keyAt_pixel:
  assumes "4 * p + 3 < length data"
  shows "keyAt minG domT data (4 * p) =
     (uint (data ! (4 * p + 1)) > uint (data ! (4 * p)) + domT
      \<and> uint (data ! (4 * p + 1)) > uint (data ! (4 * p + 2)) + domT
      \<and> uint (data ! (4 * p + 1)) > minG)"
  using assms by (simp add: keyAt_def isGreen_def dataAt_def jsGt_def jsPlus_def)

section \<open>Decimal strings are unambiguous\<close>

lemma digitChar_inj: "a < 10 \<Longrightarrow> b < 10 \<Longrightarrow> digitChar a = digitChar b \<Longrightarrow> a = b"
proof -
  assume a: "a < 10" and b: "b < 10" and e: "digitChar a = digitChar b"
  from a have ca: "a = 0 \<or> a = 1 \<or> a = 2 \<or> a = 3 \<or> a = 4 \<or> a = 5 \<or> a = 6 \<or> a = 7 \<or> a = 8 \<or> a = 9"
    by arith
  from b have cb: "b = 0 \<or> b = 1 \<or> b = 2 \<or> b = 3 \<or> b = 4 \<or> b = 5 \<or> b = 6 \<or> b = 7 \<or> b = 8 \<or> b = 9"
    by arith
  from ca cb e show ?thesis
    by (elim disjE) (simp_all add: digitChar_def)
qed

lemma digitChar_not_minus: "d < 10 \<Longrightarrow> digitChar d \<noteq> CHR ''-''"
proof -
  assume "d < 10"
  then have "d = 0 \<or> d = 1 \<or> d = 2 \<or> d = 3 \<or> d = 4 \<or> d = 5 \<or> d = 6 \<or> d = 7 \<or> d = 8 \<or> d = 9"
    by arith
  then show ?thesis by (elim disjE) (simp_all add: digitChar_def)
qed

lemma showNat_small: "n < 10 \<Longrightarrow> showNat n = [digitChar n]"
  by (subst showNat.simps) simp

lemma showNat_big: "\<not> n < 10 \<Longrightarrow> showNat n = showNat (n div 10) @ [digitChar (n mod 10)]"
  by (subst showNat.simps) simp

lemma showNat_nonempty: "showNat n \<noteq> []"
  by (cases "n < 10") (simp_all add: showNat_small showNat_big)

lemma showNat_no_minus: "CHR ''-'' \<notin> set (showNat n)"
proof (induction n rule: showNat.induct)
  case (1 n)
  show ?case
  proof (cases "n < 10")
    case True
    then show ?thesis using digitChar_not_minus [of n] by (auto simp: showNat_small)
  next
    case False
    have "n mod 10 < 10" by simp
    then have "digitChar (n mod 10) \<noteq> CHR ''-''" by (rule digitChar_not_minus)
    with "1.IH" [OF False] False show ?thesis by (auto simp: showNat_big)
  qed
qed

lemma showNat_inj: "showNat n = showNat m \<Longrightarrow> n = m"
proof (induction n arbitrary: m rule: showNat.induct)
  case (1 n)
  show ?case
  proof (cases "n < 10")
    case True
    show ?thesis
    proof (cases "m < 10")
      case m: True
      with True "1.prems" show ?thesis
        by (simp add: showNat_small digitChar_inj)
    next
      case m: False
      with True "1.prems" showNat_nonempty [of "m div 10"] show ?thesis
        by (simp add: showNat_small showNat_big)
    qed
  next
    case False
    show ?thesis
    proof (cases "m < 10")
      case m: True
      with False "1.prems" showNat_nonempty [of "n div 10"] show ?thesis
        by (simp add: showNat_small showNat_big)
    next
      case m: False
      from False m "1.prems"
      have e: "showNat (n div 10) = showNat (m div 10)" "digitChar (n mod 10) = digitChar (m mod 10)"
        by (simp_all add: showNat_big)
      from e(1) have d: "n div 10 = m div 10" by (rule "1.IH" [OF False])
      have "n mod 10 < 10" "m mod 10 < 10" by simp_all
      then have r: "n mod 10 = m mod 10" using e(2) by (intro digitChar_inj)
      from d r show ?thesis by (metis div_mult_mod_eq)
    qed
  qed
qed

lemma toString_inj: "toString a = toString b \<Longrightarrow> a = b"
proof -
  assume e: "toString a = toString b"
  have nm: "\<And>n m. CHR ''-'' # showNat n \<noteq> showNat m"
  proof
    fix n m assume "CHR ''-'' # showNat n = showNat m"
    then have "CHR ''-'' \<in> set (showNat m)" by (metis list.set_intros(1))
    then show False by (simp add: showNat_no_minus)
  qed
  show ?thesis
  proof (cases "a < 0")
    case True
    show ?thesis
    proof (cases "b < 0")
      case b: True
      with True e have "showNat (nat (- a)) = showNat (nat (- b))" by (simp add: toString_def)
      then have "nat (- a) = nat (- b)" by (rule showNat_inj)
      with True b show ?thesis by simp
    next
      case b: False
      with True e nm show ?thesis by (simp add: toString_def)
    qed
  next
    case False
    show ?thesis
    proof (cases "b < 0")
      case b: True
      with False e nm [of "nat (- b)" "nat a"] show ?thesis by (simp add: toString_def)
    next
      case b: False
      with False e have "showNat (nat a) = showNat (nat b)" by (simp add: toString_def)
      then have "nat a = nat b" by (rule showNat_inj)
      with False b show ?thesis by simp
    qed
  qed
qed

section \<open>The history along a run\<close>

lemma take_append_take: "take n (xs @ take n ys) = take n (xs @ ys)"
  by (simp add: min_def)

lemma fold_pushHistory: "length h \<le> 10 \<Longrightarrow> fold pushHistory es h = take 10 (rev es @ h)"
proof (induction es arbitrary: h)
  case Nil
  then show ?case by simp
next
  case (Cons e es)
  have "length (pushHistory e h) \<le> 10" by (simp add: pushHistory_def)
  then have "fold pushHistory (e # es) h = take 10 (rev es @ take 10 (e # h))"
    by (simp add: Cons.IH pushHistory_def)
  also have "\<dots> = take 10 (rev es @ e # h)"
    by (rule take_append_take)
  finally show ?case by simp
qed

lemma fold_pushHistory_nonempty: "es \<noteq> [] \<Longrightarrow> fold pushHistory es h = take 10 (rev es @ h)"
proof (cases es)
  case Nil
  assume "es \<noteq> []"
  with Nil show ?thesis by simp
next
  case (Cons e es')
  have "length (pushHistory e h) \<le> 10" by (simp add: pushHistory_def)
  then have "fold pushHistory es' (pushHistory e h) = take 10 (rev es' @ take 10 (e # h))"
    by (simp add: fold_pushHistory pushHistory_def)
  also have "\<dots> = take 10 (rev es' @ e # h)"
    by (rule take_append_take)
  finally show ?thesis by (simp add: Cons)
qed

lemma length_createdBy: "length (createdBy env e w) \<le> 1"
  by (cases e) (simp_all split: sum.splits)

lemma step_history:
  "history (app (step env e w)) = fold pushHistory (createdBy env e w) (history (app w))"
proof (cases e)
  case (GenerationSettled k outcome now1 now2)
  then show ?thesis
    by (simp add: handleGenerate_settle_def split: sum.splits)
next
  case GenerateClick
  then show ?thesis
    by (simp add: handleGenerate_begin_def split: option.splits prod.splits if_splits)
next
  case (SourceImgLoaded k)
  then show ?thesis by (simp split: option.splits)
next
  case (AnalysisSettled outcome)
  then show ?thesis by (simp split: sum.splits)
qed (simp_all add: handleImageSelect_def historyClick_def)

lemma run_history:
  "history (app (run env es w)) = fold pushHistory (createdItems env es w) (history (app w))"
proof (induction es arbitrary: w)
  case Nil
  show ?case by simp
next
  case (Cons e es)
  show ?case by (simp add: Cons.IH step_history)
qed

lemma step_history_bound:
  "length (history (app w)) \<le> 10 \<Longrightarrow> length (history (app (step env e w))) \<le> 10"
  by (simp add: step_history fold_pushHistory)

lemma run_history_bound:
  "length (history (app w)) \<le> 10 \<Longrightarrow> length (history (app (run env es w))) \<le> 10"
  by (simp add: run_history fold_pushHistory)

lemma createdBy_thumbnail: "x \<in> set (createdBy env e w) \<Longrightarrow> thumbnail x = generated x"
proof (cases e)
  case (GenerationSettled k outcome now1 now2)
  assume "x \<in> set (createdBy env e w)"
  with GenerationSettled show ?thesis
    by (cases "generationResult env (inflight w ! k) outcome"; cases "k < length (inflight w)") (auto simp: newHistoryItem_def)
qed simp_all

lemma createdItems_thumbnail:
  "it \<in> set (createdItems env es w) \<Longrightarrow> thumbnail it = generated it"
proof (induction es arbitrary: w)
  case Nil
  then show ?case by simp
next
  case (Cons e es)
  then show ?case by (auto dest: createdBy_thumbnail)
qed

lemma run_history_subset:
  "set (history (app (run env es initialWorld))) \<subseteq> set (createdItems env es initialWorld)"
proof -
  have "history (app initialWorld) = []"
    by (simp add: initialWorld_def initialState_def)
  then have "history (app (run env es initialWorld)) = take 10 (rev (createdItems env es initialWorld))"
    by (simp add: run_history fold_pushHistory)
  then show ?thesis
    using set_take_subset [of 10 "rev (createdItems env es initialWorld)"] by simp
qed


lemma eleven_pushes:
  assumes "length es = 11"
  shows "fold pushHistory es h = rev (tl es)"
proof -
  from assms have ne: "es \<noteq> []" by auto
  have "fold pushHistory es h = take 10 (rev es @ h)"
    by (rule fold_pushHistory_nonempty [OF ne])
  also have "\<dots> = take 10 (rev es)" using assms by simp
  also have "\<dots> = rev (drop 1 es)" using assms by (simp add: take_rev)
  finally show ?thesis by (simp add: drop_Suc)
qed

lemma rev_tl_facts:
  assumes "length es = 11"
  shows "length (rev (tl es)) = 10 \<and> hd (rev (tl es)) = es ! 10 \<and> last (rev (tl es)) = es ! 1
    \<and> (distinct es \<longrightarrow> es ! 0 \<notin> set (rev (tl es)))"
proof -
  from assms obtain x xs where es: "es = x # xs" and lx: "length xs = 10"
    by (cases es) auto
  from lx have ne: "xs \<noteq> []" by auto
  have h1: "hd (rev xs) = es ! 10"
    using lx ne by (simp add: es hd_rev last_conv_nth)
  have h2: "last (rev xs) = es ! 1"
    using ne by (simp add: es last_rev hd_conv_nth)
  from h1 h2 lx show ?thesis by (simp add: es)
qed

lemma run_history_initial:
  "history (app (run env evs initialWorld)) = take 10 (rev (createdItems env evs initialWorld))"
proof -
  have "history (app initialWorld) = []"
    by (simp add: initialWorld_def initialState_def)
  then show ?thesis
    by (simp add: run_history fold_pushHistory)
qed

lemma settle_history:
  assumes "k < length (inflight w)"
    and "generationResult env (inflight w ! k) outcome = Inr finalImage"
  shows "history (app (step env (GenerationSettled k outcome now1 now2) w))
      = pushHistory (newHistoryItem (inflight w ! k) finalImage now1 now2) (history (app w))"
  using assms by (simp add: handleGenerate_settle_def)



lemma newHistoryItem_id:
  "idH (newHistoryItem c finalImage now1 now2) = idH (newHistoryItem c' finalImage' now1' now2')
     \<longleftrightarrow> now1 = now1'"
  by (auto simp: newHistoryItem_def dest: toString_inj)

section \<open>Evaluation\<close>

text \<open>The equations that evaluate a run of the component in a given browser.\<close>

lemmas eval_defs = initialWorld_def initialState_def demoBrowser_def onePixel_def
  handleImageSelect_def handleGenerate_begin_def handleGenerate_settle_def generationResult_def
  processImageTransparency_def resize_def truthy_def chromaKey_def keyLoop.simps dataAt_def
  isGreen_def jsGt_def jsPlus_def minGreen_def dominanceThreshold_def newHistoryItem_def
  pushHistory_def errorText_def historyClick_def generateDisabled_def absent_def removeAt_def
  toString_def showNat.simps digitChar_def PRESETS_def Let_def

text \<open>The same without the preset texts, for longer runs.\<close>

lemmas run_defs = initialWorld_def initialState_def demoBrowser_def onePixel_def
  handleImageSelect_def handleGenerate_begin_def handleGenerate_settle_def generationResult_def
  processImageTransparency_def resize_def truthy_def chromaKey_def keyLoop.simps dataAt_def
  isGreen_def jsGt_def jsPlus_def minGreen_def dominanceThreshold_def newHistoryItem_def
  pushHistory_def errorText_def historyClick_def generateDisabled_def absent_def removeAt_def
  toString_def showNat.simps digitChar_def Let_def

lemma eleven_created:
  "map idH (createdItems demoBrowser elevenEvents initialWorld)
     = [''1700000000001'', ''1700000000002'', ''1700000000003'', ''1700000000004'',
          ''1700000000005'', ''1700000000006'', ''1700000000007'', ''1700000000008'',
          ''1700000000009'', ''1700000000010'', ''1700000000011'']"
  by (simp add: elevenEvents_def run_defs)


section \<open>The claims\<close>

subsection \<open>C1: which pixels are keyed out, and what happens to them\<close>

text \<open>
  Claim C1. For every pixel \<open>p\<close> of the buffer (bytes \<open>4p\<close> to \<open>4p + 3\<close>: r, g, b, a),
  the output has the same r, g and b, and its alpha is 0 if and only if the pixel is key,
  that is \<open>g > r + 10\<close> and \<open>g > b + 10\<close> and \<open>g > 40\<close> (as numbers, without
  wrap-around); otherwise the alpha is the input's, so the pixel is the same four bytes
  as before. The buffer keeps its length.
\<close>

theorem chromaKey_pixel:
  assumes "4 * p + 3 < length data"
  shows "length (chromaKey data) = length data
    \<and> chromaKey data ! (4 * p) = data ! (4 * p)
    \<and> chromaKey data ! (4 * p + 1) = data ! (4 * p + 1)
    \<and> chromaKey data ! (4 * p + 2) = data ! (4 * p + 2)
    \<and> chromaKey data ! (4 * p + 3) =
        (if uint (data ! (4 * p + 1)) > uint (data ! (4 * p)) + 10
          \<and> uint (data ! (4 * p + 1)) > uint (data ! (4 * p + 2)) + 10
          \<and> uint (data ! (4 * p + 1)) > 40
         then 0 else data ! (4 * p + 3))"
proof -
  have m: "(4 * p) mod 4 \<noteq> 3" "(4 * p + 1) mod 4 \<noteq> 3" "(4 * p + 2) mod 4 \<noteq> 3" "(4 * p + 3) mod 4 = 3"
    by presburger+
  have k: "keyAt minGreen dominanceThreshold data (4 * p + 3 - 3) =
     (uint (data ! (4 * p + 1)) > uint (data ! (4 * p)) + 10
      \<and> uint (data ! (4 * p + 1)) > uint (data ! (4 * p + 2)) + 10
      \<and> uint (data ! (4 * p + 1)) > 40)"
    using keyAt_pixel [OF assms, of minGreen dominanceThreshold]
    by (simp add: minGreen_def dominanceThreshold_def)
  have l: "4 * p < length data" "4 * p + 1 < length data" "4 * p + 2 < length data"
    using assms by simp_all
  have "chromaKey data ! (4 * p) = data ! (4 * p)"
    unfolding chromaKey_def using m(1) l(1) by (simp add: keyLoop0_nth)
  moreover have "chromaKey data ! (4 * p + 1) = data ! (4 * p + 1)"
    unfolding chromaKey_def using m(2) l(2) by (simp add: keyLoop0_nth)
  moreover have "chromaKey data ! (4 * p + 2) = data ! (4 * p + 2)"
    unfolding chromaKey_def using m(3) l(3) by (simp add: keyLoop0_nth)
  moreover have "chromaKey data ! (4 * p + 3) =
        (if uint (data ! (4 * p + 1)) > uint (data ! (4 * p)) + 10
          \<and> uint (data ! (4 * p + 1)) > uint (data ! (4 * p + 2)) + 10
          \<and> uint (data ! (4 * p + 1)) > 40
         then 0 else data ! (4 * p + 3))"
    unfolding chromaKey_def keyLoop0_nth [OF assms] k [symmetric] using m(4) by simp
  moreover have "length (chromaKey data) = length data"
    by (simp add: chromaKey_def)
  ultimately show ?thesis by blast
qed

theorem chromaKey_pixel_witness:
  "4 * 0 + 3 < length [0, 255, 0, 255, 200, 200, 200, 255 :: byte]
   \<and> chromaKey [0, 255, 0, 255, 200, 200, 200, 255] ! (4 * 0 + 3) = 0
   \<and> chromaKey [0, 255, 0, 255, 200, 200, 200, 255] ! (4 * 0 + 1) = 255"
  using chromaKey_pixel [of 0 "[0, 255, 0, 255, 200, 200, 200, 255]"]
  by simp

subsection \<open>C2: a generation that settles after the source image has changed\<close>




subsection \<open>C3: the history holds at most ten entries, newest first\<close>

text \<open>
  Claim C3. In every state that the component reaches the history has at most ten
  entries: it is the last ten entries that successful generations have created, the most
  recent first. A generation that succeeds pushes its entry, and nothing else changes
  the history. A push puts the new entry in front and keeps the first nine of the ten
  before it: the list as it was when it had fewer than ten entries, without its last
  entry when it had ten. After eleven successful generations the history is the last ten
  entries created, the eleventh in front, the second at the end, and the first one is
  gone (when the entries are told apart from each other); the same holds of eleven pushes
  on any list.
\<close>

theorem history_capacity:
  "length (history (app (run env evs initialWorld))) \<le> 10
   \<and> history (app (run env evs initialWorld)) = take 10 (rev (createdItems env evs initialWorld))
   \<and> history (app (run env evs w)) = fold pushHistory (createdItems env evs w) (history (app w))
   \<and> (k < length (inflight w) \<and> generationResult env (inflight w ! k) outcome = Inr finalImage \<longrightarrow>
        history (app (step env (GenerationSettled k outcome now1 now2) w))
          = pushHistory (newHistoryItem (inflight w ! k) finalImage now1 now2) (history (app w)))
   \<and> (length (createdItems env evs initialWorld) = 11 \<longrightarrow>
        history (app (run env evs initialWorld)) = rev (tl (createdItems env evs initialWorld))
        \<and> length (history (app (run env evs initialWorld))) = 10
        \<and> hd (history (app (run env evs initialWorld))) = createdItems env evs initialWorld ! 10
        \<and> last (history (app (run env evs initialWorld))) = createdItems env evs initialWorld ! 1
        \<and> (distinct (createdItems env evs initialWorld) \<longrightarrow>
              createdItems env evs initialWorld ! 0 \<notin> set (history (app (run env evs initialWorld)))))
   \<and> length (pushHistory item prev) \<le> 10
   \<and> pushHistory item prev = item # take 9 prev
   \<and> (length prev < 10 \<longrightarrow> pushHistory item prev = item # prev)
   \<and> (length prev = 10 \<longrightarrow> pushHistory item prev = item # butlast prev)
   \<and> (length es = 11 \<longrightarrow>
        fold pushHistory es h = rev (tl es)
        \<and> length (fold pushHistory es h) = 10
        \<and> hd (fold pushHistory es h) = es ! 10
        \<and> last (fold pushHistory es h) = es ! 1
        \<and> (distinct es \<longrightarrow> es ! 0 \<notin> set (fold pushHistory es h)))"
proof -
  have a: "length (history (app (run env evs initialWorld))) \<le> 10"
    by (rule run_history_bound) (simp add: initialWorld_def initialState_def)
  have a1: "history (app (run env evs initialWorld)) = take 10 (rev (createdItems env evs initialWorld))"
    by (rule run_history_initial)
  have a2: "history (app (run env evs w)) = fold pushHistory (createdItems env evs w) (history (app w))"
    by (rule run_history)
  have a3: "k < length (inflight w) \<and> generationResult env (inflight w ! k) outcome = Inr finalImage \<longrightarrow>
        history (app (step env (GenerationSettled k outcome now1 now2) w))
          = pushHistory (newHistoryItem (inflight w ! k) finalImage now1 now2) (history (app w))"
    using settle_history [of k w env outcome finalImage now1 now2] by blast
  have a4: "length (createdItems env evs initialWorld) = 11 \<longrightarrow>
        history (app (run env evs initialWorld)) = rev (tl (createdItems env evs initialWorld))
        \<and> length (history (app (run env evs initialWorld))) = 10
        \<and> hd (history (app (run env evs initialWorld))) = createdItems env evs initialWorld ! 10
        \<and> last (history (app (run env evs initialWorld))) = createdItems env evs initialWorld ! 1
        \<and> (distinct (createdItems env evs initialWorld) \<longrightarrow>
              createdItems env evs initialWorld ! 0 \<notin> set (history (app (run env evs initialWorld))))"
  proof
    assume l: "length (createdItems env evs initialWorld) = 11"
    have "history (app (run env evs initialWorld))
        = fold pushHistory (createdItems env evs initialWorld) (history (app initialWorld))"
      by (rule run_history)
    also have "\<dots> = rev (tl (createdItems env evs initialWorld))"
      by (rule eleven_pushes [OF l])
    finally have f: "history (app (run env evs initialWorld)) = rev (tl (createdItems env evs initialWorld))" .
    show "history (app (run env evs initialWorld)) = rev (tl (createdItems env evs initialWorld))
        \<and> length (history (app (run env evs initialWorld))) = 10
        \<and> hd (history (app (run env evs initialWorld))) = createdItems env evs initialWorld ! 10
        \<and> last (history (app (run env evs initialWorld))) = createdItems env evs initialWorld ! 1
        \<and> (distinct (createdItems env evs initialWorld) \<longrightarrow>
              createdItems env evs initialWorld ! 0 \<notin> set (history (app (run env evs initialWorld))))"
      unfolding f using rev_tl_facts [OF l] by blast
  qed
  have b: "pushHistory item prev = item # take 9 prev"
    by (simp add: pushHistory_def)
  have c: "length prev = 10 \<longrightarrow> pushHistory item prev = item # butlast prev"
    by (simp add: b butlast_conv_take)
  have d: "length es = 11 \<longrightarrow>
        fold pushHistory es h = rev (tl es)
        \<and> length (fold pushHistory es h) = 10
        \<and> hd (fold pushHistory es h) = es ! 10
        \<and> last (fold pushHistory es h) = es ! 1
        \<and> (distinct es \<longrightarrow> es ! 0 \<notin> set (fold pushHistory es h))"
  proof
    assume l: "length es = 11"
    show "fold pushHistory es h = rev (tl es)
        \<and> length (fold pushHistory es h) = 10
        \<and> hd (fold pushHistory es h) = es ! 10
        \<and> last (fold pushHistory es h) = es ! 1
        \<and> (distinct es \<longrightarrow> es ! 0 \<notin> set (fold pushHistory es h))"
      unfolding eleven_pushes [OF l] using rev_tl_facts [OF l] by blast
  qed
  have e: "length (pushHistory item prev) \<le> 10"
    by (simp add: pushHistory_def)
  have f: "length prev < 10 \<longrightarrow> pushHistory item prev = item # prev"
    by (simp add: pushHistory_def)
  from a a1 a2 a3 a4 b c d e f show ?thesis by blast
qed

theorem history_capacity_witness:
  "length (createdItems demoBrowser elevenEvents initialWorld) = 11
   \<and> map idH (createdItems demoBrowser elevenEvents initialWorld)
       = [''1700000000001'', ''1700000000002'', ''1700000000003'', ''1700000000004'',
          ''1700000000005'', ''1700000000006'', ''1700000000007'', ''1700000000008'',
          ''1700000000009'', ''1700000000010'', ''1700000000011'']
   \<and> map idH (history (app (run demoBrowser elevenEvents initialWorld)))
       = [''1700000000011'', ''1700000000010'', ''1700000000009'', ''1700000000008'',
          ''1700000000007'', ''1700000000006'', ''1700000000005'', ''1700000000004'',
          ''1700000000003'', ''1700000000002'']
   \<and> length (history (app (run demoBrowser elevenEvents initialWorld))) = 10"
proof -
  have "length (map idH (createdItems demoBrowser elevenEvents initialWorld)) = 11"
    by (simp add: eleven_created)
  then have l: "length (createdItems demoBrowser elevenEvents initialWorld) = 11"
    by simp
  from l have h: "history (app (run demoBrowser elevenEvents initialWorld))
        = rev (tl (createdItems demoBrowser elevenEvents initialWorld))"
    and n: "length (history (app (run demoBrowser elevenEvents initialWorld))) = 10"
    using history_capacity [of demoBrowser elevenEvents initialWorld]
    by blast+
  have "map idH (history (app (run demoBrowser elevenEvents initialWorld)))
      = rev (tl (map idH (createdItems demoBrowser elevenEvents initialWorld)))"
    unfolding h by (simp only: map_tl [symmetric] rev_map)
  also have "\<dots> = [''1700000000011'', ''1700000000010'', ''1700000000009'', ''1700000000008'',
          ''1700000000007'', ''1700000000006'', ''1700000000005'', ''1700000000004'',
          ''1700000000003'', ''1700000000002'']"
    by (simp add: eleven_created)
  finally show ?thesis using l n eleven_created by simp
qed

subsection \<open>C4: a generation that fails\<close>




subsection \<open>C5: the ids of the history entries\<close>

text \<open>
  Claim C5 on the program. The id of an entry is the decimal text of the reading of
  \<open>Date.now()\<close> when the entry is made, so two entries have the same id exactly when their
  readings are the same. Here images A and B are selected and a generation is started
  for each; both calls are in flight and settle at the reading 1000. The two entries
  created have the same id, \<open>1000\<close>, and both are in the history: the ids are not
  pairwise distinct.
\<close>

theorem ids_collide_same_reading:
  "map callSource (inflight (run demoBrowser (take 4 collideEvents) initialWorld)) = [''A'', ''B'']
   \<and> map idH (createdItems demoBrowser collideEvents initialWorld) = [''1000'', ''1000'']
   \<and> \<not> distinct (map idH (createdItems demoBrowser collideEvents initialWorld))
   \<and> map idH (history (app (run demoBrowser collideEvents initialWorld))) = [''1000'', ''1000'']
   \<and> map original (history (app (run demoBrowser collideEvents initialWorld))) = [''B'', ''A'']"
proof -
  have a: "map idH (createdItems demoBrowser collideEvents initialWorld) = [''1000'', ''1000'']"
    by (simp add: collideEvents_def run_defs)
  have b: "map idH (history (app (run demoBrowser collideEvents initialWorld))) = [''1000'', ''1000'']"
    by (simp add: collideEvents_def run_defs)
  have c: "map original (history (app (run demoBrowser collideEvents initialWorld))) = [''B'', ''A'']"
    by (simp add: collideEvents_def run_defs)
  have d: "map callSource (inflight (run demoBrowser (take 4 collideEvents) initialWorld)) = [''A'', ''B'']"
    by (simp add: collideEvents_def run_defs)
  from a b c d show ?thesis by simp
qed

subsection \<open>C6: no resampling when the target size is absent or the size of the canvas\<close>

text \<open>
  Claim C6. When both target dimensions are absent, or they are the width and height of
  the canvas, \<open>resize\<close> does not resample: its result is the encoding of the canvas it
  was given. For \<open>processImageTransparency\<close> as a whole the result is then the encoding of
  the decoded image with the key pixels made transparent, at the image's own size.
\<close>

theorem resize_skips:
  assumes "(targetWidth = None \<and> targetHeight = None)
           \<or> (targetWidth = Some w \<and> targetHeight = Some h)"
  shows "resize env w h targetWidth targetHeight cv = toDataURL env cv
    \<and> (loadImage env base64Str = Some img \<and> tempContext env \<and> width img = w \<and> height img = h
         \<longrightarrow> processImageTransparency env base64Str targetWidth targetHeight
             = Inr (toDataURL env (img\<lparr>pixels := chromaKey (pixels img)\<rparr>)))"
proof -
  have r: "\<And>cv. resize env w h targetWidth targetHeight cv = toDataURL env cv"
    using assms by (auto simp: resize_def truthy_def)
  then show ?thesis
    by (auto simp: processImageTransparency_def Let_def)
qed

theorem resize_skips_witness:
  "resize demoBrowser 1 1 None None onePixel = ''png 1 1 0 255 0 255''
   \<and> resize demoBrowser 1 1 (Some 1) (Some 1) onePixel = ''png 1 1 0 255 0 255''
   \<and> resize demoBrowser 1 1 (Some 2) (Some 1) onePixel \<noteq> ''png 1 1 0 255 0 255''"
proof -
  have e: "toDataURL demoBrowser onePixel = ''png 1 1 0 255 0 255''"
    by (simp add: eval_defs)
  have a: "resize demoBrowser 1 1 None None onePixel = toDataURL demoBrowser onePixel"
    using resize_skips [of None None 1 1 demoBrowser onePixel] by blast
  have b: "resize demoBrowser 1 1 (Some 1) (Some 1) onePixel = toDataURL demoBrowser onePixel"
    using resize_skips [of "Some 1" "Some 1" 1 1 demoBrowser onePixel] by blast
  have c: "resize demoBrowser 1 1 (Some 2) (Some 1) onePixel \<noteq> ''png 1 1 0 255 0 255''"
    by (simp add: eval_defs)
  from a b c e show ?thesis by simp
qed

subsection \<open>C7: the extraction is idempotent\<close>

text \<open>
  Claim C7. The chroma-key extraction is idempotent: for every buffer and every pair of
  thresholds, running the loop on its own output gives that output again; in particular
  for the thresholds 40 and 10 that the program uses.
\<close>

theorem chromaKey_idempotent:
  "keyLoop minG domT 0 (keyLoop minG domT 0 data) = keyLoop minG domT 0 data
   \<and> chromaKey (chromaKey data) = chromaKey data"
  by (simp add: chromaKey_def keyLoop0_idem)

theorem chromaKey_idempotent_witness:
  "chromaKey [0, 255, 0, 255, 200, 200, 200, 255] = [0, 255, 0, 0, 200, 200, 200, 255]
   \<and> chromaKey (chromaKey [0, 255, 0, 255, 200, 200, 200, 255]) = [0, 255, 0, 0, 200, 200, 200, 255]"
proof -
  have "chromaKey [0, 255, 0, 255, 200, 200, 200, 255] = [0, 255, 0, 0, 200, 200, 200, 255]"
    by (simp add: eval_defs)
  then show ?thesis
    using chromaKey_idempotent [of minGreen dominanceThreshold "[0, 255, 0, 255, 200, 200, 200, 255]"]
    by simp
qed

subsection \<open>C8: generate requests that do nothing\<close>

text \<open>
  Claim C8, as amended. A click on the generate button changes nothing (no state, no
  edit call, no error) when the source image is absent or when the status is
  \<open>PROCESSING\<close>; and \<open>handleGenerate\<close> itself returns at once, with no edit call, when
  the source image is absent. That no two edits ever run at the same time is not part
  of it: only the status gates a request, and the status can leave \<open>PROCESSING\<close> while a
  call is still in flight.
\<close>

theorem generate_noop:
  assumes "absent (sourceImage (app w)) \<or> status (app w) = PROCESSING"
  shows "step env GenerateClick w = w
    \<and> (absent (sourceImage (app w)) \<longrightarrow> handleGenerate_begin (app w) = (app w, None))"
  using assms
  by (auto simp: generateDisabled_def handleGenerate_begin_def absent_def split: option.splits)

theorem generate_noop_witness:
  "step demoBrowser GenerateClick initialWorld = initialWorld
   \<and> status (app (run demoBrowser [ImageSelect ''A'' ''image/png'', GenerateClick] initialWorld)) = PROCESSING
   \<and> step demoBrowser GenerateClick (run demoBrowser [ImageSelect ''A'' ''image/png'', GenerateClick] initialWorld)
       = run demoBrowser [ImageSelect ''A'' ''image/png'', GenerateClick] initialWorld"
proof -
  have a: "absent (sourceImage (app initialWorld))"
    by (simp add: eval_defs)
  have b: "status (app (run demoBrowser [ImageSelect ''A'' ''image/png'', GenerateClick] initialWorld)) = PROCESSING"
    by (simp add: eval_defs)
  show ?thesis
    using generate_noop [of initialWorld demoBrowser]
      generate_noop [of "run demoBrowser [ImageSelect ''A'' ''image/png'', GenerateClick] initialWorld" demoBrowser]
      a b by blast
qed

text \<open>
  The claim as it was stated fails: with a call in flight for image A, image B is selected,
  which sets the status to \<open>IDLE\<close>; the next click starts a second edit call while the
  first is still in flight.
\<close>

theorem generate_overlap_counterexample:
  "inflight (run demoBrowser overlapEvents initialWorld) \<noteq> []
   \<and> step demoBrowser GenerateClick (run demoBrowser overlapEvents initialWorld)
       \<noteq> run demoBrowser overlapEvents initialWorld
   \<and> length (inflight (step demoBrowser GenerateClick (run demoBrowser overlapEvents initialWorld))) = 2"
proof -
  have a: "length (inflight (run demoBrowser overlapEvents initialWorld)) = 1"
    by (simp add: overlapEvents_def eval_defs)
  have b: "length (inflight (step demoBrowser GenerateClick (run demoBrowser overlapEvents initialWorld))) = 2"
    by (simp add: overlapEvents_def eval_defs)
  from a b show ?thesis by auto
qed

subsection \<open>C9: selecting a source image\<close>

text \<open>
  Claim C9. Selecting a source image, from any state, sets the status to \<open>IDLE\<close>, clears
  the generated image, the error message and the scene analysis, and makes the selected
  image the source image.
\<close>

theorem select_resets:
  "status (handleImageSelect base64 type st) = IDLE
   \<and> generatedImage (handleImageSelect base64 type st) = None
   \<and> error (handleImageSelect base64 type st) = None
   \<and> analysis (handleImageSelect base64 type st) = None
   \<and> sourceImage (handleImageSelect base64 type st) = Some base64
   \<and> app (step env (ImageSelect base64 type) w) = handleImageSelect base64 type (app w)"
  by (simp add: handleImageSelect_def)

theorem select_resets_witness:
  "status (app (run demoBrowser retryEvents initialWorld)) = SUCCESS
   \<and> status (handleImageSelect ''B'' ''image/jpeg'' (app (run demoBrowser retryEvents initialWorld))) = IDLE
   \<and> generatedImage (handleImageSelect ''B'' ''image/jpeg'' (app (run demoBrowser retryEvents initialWorld))) = None"
proof -
  have "status (app (run demoBrowser retryEvents initialWorld)) = SUCCESS"
    by (simp add: retryEvents_def eval_defs)
  then show ?thesis
    using select_resets [of "''B''" "''image/jpeg''" "app (run demoBrowser retryEvents initialWorld)"
        demoBrowser "run demoBrowser retryEvents initialWorld"]
    by simp
qed

subsection \<open>C10: the thumbnail is the generated image\<close>

text \<open>
  Claim C10. Every history entry that a successful generation creates has the generated
  image as its thumbnail: this holds for the entry as it is built, for every entry that
  a run creates, and for every entry in the history of every state the component reaches.
\<close>

theorem thumbnail_is_generated:
  "(\<forall>x \<in> set (createdItems env evs w). thumbnail x = generated x)
   \<and> (\<forall>x \<in> set (history (app (run env evs initialWorld))). thumbnail x = generated x)
   \<and> thumbnail (newHistoryItem c finalImage now1 now2) = finalImage
   \<and> generated (newHistoryItem c finalImage now1 now2) = finalImage"
proof -
  have a: "\<forall>x \<in> set (createdItems env evs w). thumbnail x = generated x"
    by (blast intro: createdItems_thumbnail)
  have b: "\<forall>x \<in> set (history (app (run env evs initialWorld))). thumbnail x = generated x"
    using run_history_subset [of env evs] createdItems_thumbnail [of _ env evs initialWorld]
    by blast
  from a b show ?thesis by (simp add: newHistoryItem_def)
qed

theorem thumbnail_is_generated_witness:
  "map generated (history (app (run demoBrowser twoClockEvents initialWorld)))
      = [''png 1 1 0 255 0 0'', ''png 1 1 0 255 0 0'']
   \<and> thumbnail (hd (history (app (run demoBrowser twoClockEvents initialWorld))))
      = generated (hd (history (app (run demoBrowser twoClockEvents initialWorld))))"
proof -
  have a: "map generated (history (app (run demoBrowser twoClockEvents initialWorld)))
      = [''png 1 1 0 255 0 0'', ''png 1 1 0 255 0 0'']"
    by (simp add: twoClockEvents_def eval_defs)
  then have "history (app (run demoBrowser twoClockEvents initialWorld)) \<noteq> []"
    by auto
  then have "hd (history (app (run demoBrowser twoClockEvents initialWorld)))
      \<in> set (history (app (run demoBrowser twoClockEvents initialWorld)))"
    by (rule hd_in_set)
  with a show ?thesis
    using thumbnail_is_generated [of demoBrowser twoClockEvents initialWorld]
    by blast
qed

end
